theory Spec2Isabelle
  imports
    Complex_Main
    "HOL-Library.Char_ord"
    "HOL-Library.List_Lexorder"
    "HOL-Library.Product_Lexorder"
    "HOL-Library.AList"
begin

section \<open>JavaScript values used by \<^verbatim>\<open>src/lib/ckey.ts\<close>\<close>

text \<open>
  A JavaScript number is \<open>NaN\<close>, one of the two infinities, or a finite value. Finite
  doubles are rationals; the two zeros are one value here (\<open>===\<close> and the key equality
  of \<open>Map\<close> do not tell them apart). Subtraction is the only arithmetic the module does.
  For two finite operands the model gives the exact difference: the double result is
  that difference rounded, which has the same sign (and is zero exactly when the
  operands are equal), and the sign is all that a comparator's caller reads.
\<close>

datatype jsnum = NaN | NegInf | Fin rat | PosInf

fun js_sub :: "jsnum \<Rightarrow> jsnum \<Rightarrow> jsnum" where
  "js_sub NaN _ = NaN"
| "js_sub _ NaN = NaN"
| "js_sub PosInf PosInf = NaN"
| "js_sub NegInf NegInf = NaN"
| "js_sub PosInf _ = PosInf"
| "js_sub NegInf _ = NegInf"
| "js_sub (Fin _) PosInf = NegInf"
| "js_sub (Fin _) NegInf = PosInf"
| "js_sub (Fin x) (Fin y) = Fin (x - y)"

text \<open>The tests \<open>v < 0\<close>, \<open>v === 0\<close> and \<open>v > 0\<close> on a number; all three are false on \<open>NaN\<close>.\<close>

fun is_negative :: "jsnum \<Rightarrow> bool" where
  "is_negative NegInf = True"
| "is_negative (Fin x) = (x < 0)"
| "is_negative _ = False"

fun is_zero :: "jsnum \<Rightarrow> bool" where
  "is_zero (Fin x) = (x = 0)"
| "is_zero _ = False"

fun is_positive :: "jsnum \<Rightarrow> bool" where
  "is_positive PosInf = True"
| "is_positive (Fin x) = (0 < x)"
| "is_positive _ = False"

text \<open>
  A symbol has an identity (two calls of \<open>Symbol('s')\<close> give different symbols) and a
  description; \<open>toString\<close> prints \<open>Symbol(description)\<close>.
\<close>

datatype symbol = Symbol (sym_id: nat) (description: string)

definition symToString :: "symbol \<Rightarrow> string" where
  "symToString s = ''Symbol('' @ description s @ '')''"

text \<open>
  The values a field of a key can hold. \<open>Obj\<close> stands for every value that is compared by
  reference (objects, arrays, functions), named by its identity. Strings are lists of
  8-bit characters ordered by character code, shorter prefix first, as \<open><\<close> orders
  JavaScript strings by code unit. HOL equality on this type is the \<open>SameValueZero\<close>
  equality that \<open>Map\<close> uses for its keys.
\<close>

datatype jsval =
    Undefined
  | Null
  | Num jsnum
  | Str string
  | Sym symbol
  | Bool bool
  | Obj nat

datatype error = NonScalarValues | InternalError

section \<open>Scalar ranking and comparison\<close>

datatype Rank = UNDEFINED | NULL | NUMBER | STRING | SYMBOL | OTHER

text \<open>The numeric value of each member of the enum; \<open>OTHER = Infinity\<close>.\<close>

fun rank_value :: "Rank \<Rightarrow> jsnum" where
  "rank_value UNDEFINED = Fin 0"
| "rank_value NULL = Fin 10"
| "rank_value NUMBER = Fin 20"
| "rank_value STRING = Fin 30"
| "rank_value SYMBOL = Fin 40"
| "rank_value OTHER = PosInf"

fun rankScalarType :: "jsval \<Rightarrow> Rank" where
  "rankScalarType Undefined = UNDEFINED"
| "rankScalarType Null = NULL"
| "rankScalarType (Num _) = NUMBER"
| "rankScalarType (Str _) = STRING"
| "rankScalarType (Sym _) = SYMBOL"
| "rankScalarType _ = OTHER"

definition compareStrings :: "string \<Rightarrow> string \<Rightarrow> jsnum" where
  "compareStrings s t = (if s < t then Fin (- 1) else if t < s then Fin 1 else Fin 0)"

text \<open>
  The \<open>switch (rank)\<close> of \<open>compareScalars\<close>, entered when both arguments have the rank
  \<open>rank\<close>. The casts \<open>a as number\<close>, \<open>a as string\<close> do nothing at run time; the last
  equation covers the argument shapes that the equal ranks exclude.
\<close>

fun compareSameRank :: "Rank \<Rightarrow> jsval \<Rightarrow> jsval \<Rightarrow> error + jsnum" where
  "compareSameRank UNDEFINED a b = Inr (Fin 0)"
| "compareSameRank NULL a b = Inr (Fin 0)"
| "compareSameRank NUMBER (Num x) (Num y) = Inr (js_sub x y)"
| "compareSameRank STRING (Str s) (Str t) = Inr (compareStrings s t)"
| "compareSameRank SYMBOL (Sym s) (Sym t) = Inr (compareStrings (symToString s) (symToString t))"
| "compareSameRank OTHER a b = Inl NonScalarValues"
| "compareSameRank _ a b = Inl InternalError"

definition compareScalars :: "jsval \<Rightarrow> jsval \<Rightarrow> error + jsnum" where
  "compareScalars a b =
     (let rank = rankScalarType a;
          compareRanks = js_sub (rank_value rank) (rank_value (rankScalarType b))
      in if compareRanks \<noteq> Fin 0 then Inr compareRanks
         else compareSameRank rank a b)"

section \<open>Compound keys and the host's reflection\<close>

text \<open>
  A selector of a key is a string or a symbol. A key is an object: its own properties,
  each with a value and an \<open>enumerable\<close> flag, listed in the order in which they were
  defined; no selector occurs twice. The module never writes to a key, so a key is the
  value of this list.
\<close>

datatype selector = Name string | Token symbol

fun is_name :: "selector \<Rightarrow> bool" where
  "is_name (Name _) = True"
| "is_name (Token _) = False"

record descriptor =
  dvalue :: jsval
  enumerable :: bool

type_synonym jsobj = "(selector \<times> descriptor) list"

text \<open>Modelled from the spec: the host's reflection facility
  \<open>Object.getOwnPropertyNames\<close>, which is not repository code: the string selectors of
  the key, in definition order. (The host puts names that are array indices first, in
  ascending order; for a key with such names the list of properties is in the host's
  order.)\<close>

definition getOwnPropertyNames :: "jsobj \<Rightarrow> selector list" where
  "getOwnPropertyNames obj = filter is_name (map fst obj)"

text \<open>Modelled from the spec: the host's reflection facility
  \<open>Object.getOwnPropertySymbols\<close>, which is not repository code: the symbol selectors
  of the key, in definition order.\<close>

definition getOwnPropertySymbols :: "jsobj \<Rightarrow> selector list" where
  "getOwnPropertySymbols obj = filter (\<lambda>k. \<not> is_name k) (map fst obj)"

text \<open>Modelled from the spec: the host's \<open>Object.getOwnPropertyDescriptor\<close>, which is
  not repository code: the descriptor of an own property, nothing for a selector the
  key does not have.\<close>

definition getOwnPropertyDescriptor :: "jsobj \<Rightarrow> selector \<Rightarrow> descriptor option" where
  "getOwnPropertyDescriptor obj key = map_of obj key"

text \<open>Modelled from the spec: the host's field access \<open>key[keyElement]\<close>, which is not
  repository code: the value of the field, \<open>undefined\<close> for a selector the key does
  not have.\<close>

definition getProp :: "jsobj \<Rightarrow> selector \<Rightarrow> jsval" where
  "getProp obj key = (case map_of obj key of Some d \<Rightarrow> dvalue d | None \<Rightarrow> Undefined)"

text \<open>A selector read as a scalar, as \<open>sort(compareScalars)\<close> passes it to the comparator.\<close>

fun scalar_of :: "selector \<Rightarrow> jsval" where
  "scalar_of (Name s) = Str s"
| "scalar_of (Token y) = Sym y"

section \<open>Key-sequence strategies\<close>

fun filterIt :: "('t \<Rightarrow> bool) \<Rightarrow> 't list \<Rightarrow> 't list" where
  "filterIt pred [] = []"
| "filterIt pred (v # it) = (if pred v then v # filterIt pred it else filterIt pred it)"

text \<open>
  \<open>isEnumerable\<close> is only applied to own keys of \<open>obj\<close>, for which the descriptor
  exists; the \<open>None\<close> branch stands for the non-null assertion and is never taken there.
\<close>

definition isEnumerable :: "jsobj \<Rightarrow> selector \<Rightarrow> bool" where
  "isEnumerable obj key =
     (case getOwnPropertyDescriptor obj key of Some d \<Rightarrow> enumerable d | None \<Rightarrow> False)"

definition asObjects :: "jsobj \<Rightarrow> selector list" where
  "asObjects obj =
     filterIt (isEnumerable obj) (getOwnPropertyNames obj) @
     filterIt (isEnumerable obj) (getOwnPropertySymbols obj)"

text \<open>Modelled from the spec: the host's \<open>Array.prototype.sort\<close> with a comparator,
  which is not repository code: a stable sort in which \<open>x\<close> goes after \<open>y\<close> exactly
  when \<open>cmp x y > 0\<close> (a \<open>NaN\<close> result counts as \<open>+0\<close>), and which passes on whatever
  the comparator throws. It is written as an insertion sort; on a comparator that is a
  total preorder of the elements every stable sort gives the same result.\<close>

fun js_insert :: "('a \<Rightarrow> 'a \<Rightarrow> error + jsnum) \<Rightarrow> 'a \<Rightarrow> 'a list \<Rightarrow> error + 'a list" where
  "js_insert cmp x [] = Inr [x]"
| "js_insert cmp x (y # ys) =
     (case cmp x y of
        Inl e \<Rightarrow> Inl e
      | Inr v \<Rightarrow>
          if is_positive v
          then (case js_insert cmp x ys of Inl e \<Rightarrow> Inl e | Inr zs \<Rightarrow> Inr (y # zs))
          else Inr (x # y # ys))"

fun js_sort :: "('a \<Rightarrow> 'a \<Rightarrow> error + jsnum) \<Rightarrow> 'a list \<Rightarrow> error + 'a list" where
  "js_sort cmp [] = Inr []"
| "js_sort cmp (x # xs) =
     (case js_sort cmp xs of Inl e \<Rightarrow> Inl e | Inr ys \<Rightarrow> js_insert cmp x ys)"

definition asValues :: "jsobj \<Rightarrow> error + selector list" where
  "asValues obj = js_sort (\<lambda>x y. compareScalars (scalar_of x) (scalar_of y)) (asObjects obj)"

text \<open>
  A key generator gives the key sequence or throws. \<open>asObjects\<close> as a key generator
  never throws.
\<close>

type_synonym keygen = "jsobj \<Rightarrow> error + selector list"

definition asObjectsGen :: keygen where
  "asObjectsGen obj = Inr (asObjects obj)"

section \<open>Trie nodes and the compound map\<close>

text \<open>
  The value slot of a node holds the sentinel \<open>notPresent\<close> or a stored value. A \<open>Map\<close>
  is an association list in insertion order: \<open>map_of\<close> is \<open>Map.get\<close>, and
  \<open>AList.update\<close> is \<open>Map.set\<close> (an existing key keeps its place, a new one goes last).
  Every node is created by \<open>makeNode\<close> and stored in exactly one table, so the nodes
  form a tree and a node reference is the node itself.
\<close>

datatype slot = notPresent | Present jsval

datatype node =
  Node (node_value: slot) (node_next: "(selector \<times> (jsval \<times> node) list) list option")

definition emptyNode :: node where
  "emptyNode = Node notPresent None"

text \<open>\<open>getOrMaybeAdd\<close> returns the element and the map as the call leaves it.\<close>

definition getOrMaybeAdd :: "('a \<times> 'b) list \<Rightarrow> 'a \<Rightarrow> 'b \<Rightarrow> 'b \<times> ('a \<times> 'b) list" where
  "getOrMaybeAdd m a el =
     (case map_of m a of Some b \<Rightarrow> (b, m) | None \<Rightarrow> (el, AList.update a el m))"

record CMap =
  keyGenerator :: keygen
  "values" :: node

definition newCMap :: "keygen \<Rightarrow> CMap" where
  "newCMap kg = \<lparr> keyGenerator = kg, values = emptyNode \<rparr>"

fun findNode_loop :: "jsobj \<Rightarrow> selector list \<Rightarrow> node \<Rightarrow> node option" where
  "findNode_loop key [] node = Some node"
| "findNode_loop key (keyElement # keySeq) node =
     (case node_next node of
        None \<Rightarrow> None
      | Some nxt \<Rightarrow>
          (case map_of nxt keyElement of
             None \<Rightarrow> None
           | Some forKeyElement \<Rightarrow>
               (case map_of forKeyElement (getProp key keyElement) of
                  None \<Rightarrow> None
                | Some child \<Rightarrow> findNode_loop key keySeq child)))"

definition findNode :: "CMap \<Rightarrow> jsobj \<Rightarrow> error + node option" where
  "findNode m key =
     (case keyGenerator m key of
        Inl e \<Rightarrow> Inl e
      | Inr keySeq \<Rightarrow> Inr (findNode_loop key keySeq (values m)))"

text \<open>
  \<open>makeNode\<close> walks like \<open>findNode\<close> and creates what is missing. It returns a
  reference to the last node, which the caller then writes to; here the caller's write
  is the argument \<open>f\<close>, applied to that node in place, and the result is the trie as the
  walk and the write leave it.
\<close>

fun makeNode_loop :: "jsobj \<Rightarrow> selector list \<Rightarrow> (node \<Rightarrow> node) \<Rightarrow> node \<Rightarrow> node" where
  "makeNode_loop key [] f node = f node"
| "makeNode_loop key (keyElement # keySeq) f node =
     (let nxt = (case node_next node of None \<Rightarrow> [] | Some m \<Rightarrow> m);
          (forKeyElement, nxt1) = getOrMaybeAdd nxt keyElement [];
          (child, forKeyElement1) = getOrMaybeAdd forKeyElement (getProp key keyElement) emptyNode;
          child1 = makeNode_loop key keySeq f child
      in Node (node_value node)
           (Some (AList.update keyElement
                    (AList.update (getProp key keyElement) child1 forKeyElement1) nxt1)))"

definition makeNode :: "CMap \<Rightarrow> jsobj \<Rightarrow> (node \<Rightarrow> node) \<Rightarrow> error + CMap" where
  "makeNode m key f =
     (case keyGenerator m key of
        Inl e \<Rightarrow> Inl e
      | Inr keySeq \<Rightarrow> Inr (m\<lparr> values := makeNode_loop key keySeq f (values m) \<rparr>))"

text \<open>
  A method returns its result, or the error it throws, together with the map as the
  call leaves it. \<open>set\<close> returns \<open>this\<close>: the receiver, in the state the call leaves it.
\<close>

definition get :: "jsobj \<Rightarrow> CMap \<Rightarrow> (error + jsval) \<times> CMap" where
  "get key m =
     (case findNode m key of
        Inl e \<Rightarrow> (Inl e, m)
      | Inr None \<Rightarrow> (Inr Undefined, m)
      | Inr (Some node) \<Rightarrow>
          (case node_value node of
             notPresent \<Rightarrow> (Inr Undefined, m)
           | Present v \<Rightarrow> (Inr v, m)))"

definition set_value :: "jsval \<Rightarrow> node \<Rightarrow> node" where
  "set_value v node = Node (Present v) (node_next node)"

definition set_cmap :: "jsobj \<Rightarrow> jsval \<Rightarrow> CMap \<Rightarrow> (error + CMap) \<times> CMap" where
  "set_cmap key v m =
     (case makeNode m key (set_value v) of
        Inl e \<Rightarrow> (Inl e, m)
      | Inr m1 \<Rightarrow> (Inr m1, m1))"

section \<open>The later members of the map: \<open>has\<close>, \<open>size\<close>, \<open>delete\<close>, \<open>clear\<close>\<close>

text \<open>
  The tests call \<open>has\<close>, \<open>size\<close>, \<open>delete\<close> and \<open>clear\<close>; the class in
  \<^verbatim>\<open>src/lib/ckey.ts\<close> does not have them yet. They are written here from the
  specification, on top of the walks of the source.
\<close>

text \<open>Modelled from the spec: the map with its maintained \<open>size\<close> counter, which the class
  under \<^verbatim>\<open>src/\<close> does not keep.\<close>

record SizedCMap =
  cmap :: CMap
  map_size :: int

text \<open>Modelled from the spec: the constructor of the map with the counter, \<open>size\<close> zero.\<close>

definition newSizedCMap :: "keygen \<Rightarrow> SizedCMap" where
  "newSizedCMap kg = \<lparr> cmap = newCMap kg, map_size = 0 \<rparr>"

text \<open>Modelled from the spec: \<open>has(key)\<close>, missing from the source: true iff \<open>get\<close>
  would return a present value, that is Find gives a node whose value slot is not
  absent.\<close>

definition has :: "jsobj \<Rightarrow> SizedCMap \<Rightarrow> (error + bool) \<times> SizedCMap" where
  "has key m =
     (case findNode (cmap m) key of
        Inl e \<Rightarrow> (Inl e, m)
      | Inr None \<Rightarrow> (Inr False, m)
      | Inr (Some node) \<Rightarrow> (Inr (node_value node \<noteq> notPresent), m))"


text \<open>Modelled from the spec: \<open>set(key, value)\<close> with the counter, missing from the
  source: Ensure(key); if the terminal's value slot was absent, increment size;
  overwrite the slot with the value; return the map itself.\<close>

definition set_sized :: "jsobj \<Rightarrow> jsval \<Rightarrow> SizedCMap \<Rightarrow> (error + SizedCMap) \<times> SizedCMap" where
  "set_sized key v m =
     (case keyGenerator (cmap m) key of
        Inl e \<Rightarrow> (Inl e, m)
      | Inr keySeq \<Rightarrow>
          (let ensured = makeNode_loop key keySeq (\<lambda>node. node) (values (cmap m));
               wasAbsent = (case findNode_loop key keySeq ensured of
                              None \<Rightarrow> True
                            | Some node \<Rightarrow> node_value node = notPresent);
               written = makeNode_loop key keySeq (set_value v) ensured;
               m1 = \<lparr> cmap = (cmap m)\<lparr> values := written \<rparr>,
                      map_size = (if wasAbsent then map_size m + 1 else map_size m) \<rparr>
           in (Inr m1, m1)))"

text \<open>Modelled from the spec: a node is dead weight when its value slot is absent and its
  branch table is empty or absent.\<close>

definition dead :: "node \<Rightarrow> bool" where
  "dead node = (node_value node = notPresent \<and> (node_next node = None \<or> node_next node = Some []))"

text \<open>Modelled from the spec: the walk of \<open>delete\<close>, missing from the source, on a key
  that Find has found: clear the terminal's value slot, then on the way back up remove
  each (selector, value) entry of the branch table whose child is left dead. An entry
  is a value under a selector; a selector whose last value goes is removed with it, so
  that a node without children has an empty table. A node whose child is kept has
  remaining content, and nothing above it is removed.\<close>

fun delete_loop :: "jsobj \<Rightarrow> selector list \<Rightarrow> node \<Rightarrow> node" where
  "delete_loop key [] node = Node notPresent (node_next node)"
| "delete_loop key (keyElement # keySeq) node =
     (case node_next node of
        None \<Rightarrow> node
      | Some nxt \<Rightarrow>
          (case map_of nxt keyElement of
             None \<Rightarrow> node
           | Some forKeyElement \<Rightarrow>
               (case map_of forKeyElement (getProp key keyElement) of
                  None \<Rightarrow> node
                | Some child \<Rightarrow>
                    (let child1 = delete_loop key keySeq child
                     in if dead child1
                        then (let forKeyElement1 = AList.delete (getProp key keyElement) forKeyElement
                              in Node (node_value node)
                                   (Some (if forKeyElement1 = []
                                          then AList.delete keyElement nxt
                                          else AList.update keyElement forKeyElement1 nxt)))
                        else Node (node_value node)
                               (Some (AList.update keyElement
                                        (AList.update (getProp key keyElement) child1 forKeyElement)
                                        nxt))))))"

text \<open>Modelled from the spec: \<open>delete(key)\<close>, missing from the source: Find(key)
  without creating; if there is no node or the value slot is already absent, return
  false and change nothing; otherwise clear the slot, decrement size, prune, and
  return true.\<close>

definition delete :: "jsobj \<Rightarrow> SizedCMap \<Rightarrow> (error + bool) \<times> SizedCMap" where
  "delete key m =
     (case keyGenerator (cmap m) key of
        Inl e \<Rightarrow> (Inl e, m)
      | Inr keySeq \<Rightarrow>
          (case findNode_loop key keySeq (values (cmap m)) of
             None \<Rightarrow> (Inr False, m)
           | Some node \<Rightarrow>
               if node_value node = notPresent then (Inr False, m)
               else (Inr True,
                     \<lparr> cmap = (cmap m)\<lparr> values := delete_loop key keySeq (values (cmap m)) \<rparr>,
                       map_size = map_size m - 1 \<rparr>)))"

text \<open>Modelled from the spec: \<open>clear()\<close>, missing from the source: a fresh empty root
  and size zero.\<close>

definition clear :: "SizedCMap \<Rightarrow> unit \<times> SizedCMap" where
  "clear m = ((), \<lparr> cmap = (cmap m)\<lparr> values := emptyNode \<rparr>, map_size = 0 \<rparr>)"

text \<open>A sequence of \<open>set\<close> and \<open>delete\<close> calls on one map, each call working on the map
  as the call before left it.\<close>

datatype op = Set jsobj jsval | Delete jsobj

fun apply_op :: "op \<Rightarrow> SizedCMap \<Rightarrow> SizedCMap" where
  "apply_op (Set key v) m = snd (set_sized key v m)"
| "apply_op (Delete key) m = snd (delete key m)"

fun run :: "op list \<Rightarrow> SizedCMap \<Rightarrow> SizedCMap" where
  "run [] m = m"
| "run (c # cs) m = run cs (apply_op c m)"

section \<open>Notions of the specification\<close>

text \<open>
  The linearized key: the (selector, value) steps that a walk takes for a key, given
  its key sequence.
\<close>

definition steps :: "jsobj \<Rightarrow> selector list \<Rightarrow> (selector \<times> jsval) list" where
  "steps key keySeq = map (\<lambda>keyElement. (keyElement, getProp key keyElement)) keySeq"

definition linearize :: "keygen \<Rightarrow> jsobj \<Rightarrow> (selector \<times> jsval) list option" where
  "linearize kg key = (case kg key of Inl e \<Rightarrow> None | Inr keySeq \<Rightarrow> Some (steps key keySeq))"

text \<open>One step \<open>node.next?.get(selector)?.get(value)\<close>, and the walk along given steps.\<close>

definition child_at :: "node \<Rightarrow> selector \<Rightarrow> jsval \<Rightarrow> node option" where
  "child_at node e v =
     (case node_next node of
        None \<Rightarrow> None
      | Some nxt \<Rightarrow> (case map_of nxt e of None \<Rightarrow> None | Some forKeyElement \<Rightarrow> map_of forKeyElement v))"

fun descend :: "node \<Rightarrow> (selector \<times> jsval) list \<Rightarrow> node option" where
  "descend node [] = Some node"
| "descend node ((e, v) # p) =
     (case child_at node e v of None \<Rightarrow> None | Some child \<Rightarrow> descend child p)"

text \<open>The value slot that the steps lead to: absent when the walk finds no node.\<close>

definition slot_at :: "node \<Rightarrow> (selector \<times> jsval) list \<Rightarrow> slot" where
  "slot_at node p = (case descend node p of None \<Rightarrow> notPresent | Some n \<Rightarrow> node_value n)"

text \<open>The linearized keys that hold a present value, and the ones some \<open>set\<close> of a call
  sequence has written.\<close>

definition present_keys :: "SizedCMap \<Rightarrow> (selector \<times> jsval) list set" where
  "present_keys m = {p. slot_at (values (cmap m)) p \<noteq> notPresent}"

definition keys_set :: "keygen \<Rightarrow> op list \<Rightarrow> (selector \<times> jsval) list set" where
  "keys_set kg cs = {p. \<exists>key v. Set key v \<in> set cs \<and> linearize kg key = Some p}"

text \<open>The sign of a comparison: negative, zero, positive. None of the three holds when
  the comparator returns \<open>NaN\<close> or throws.\<close>

definition cmp_neg :: "jsval \<Rightarrow> jsval \<Rightarrow> bool" where
  "cmp_neg a b = (case compareScalars a b of Inr v \<Rightarrow> is_negative v | Inl e \<Rightarrow> False)"

definition cmp_zero :: "jsval \<Rightarrow> jsval \<Rightarrow> bool" where
  "cmp_zero a b = (case compareScalars a b of Inr v \<Rightarrow> is_zero v | Inl e \<Rightarrow> False)"

definition cmp_pos :: "jsval \<Rightarrow> jsval \<Rightarrow> bool" where
  "cmp_pos a b = (case compareScalars a b of Inr v \<Rightarrow> is_positive v | Inl e \<Rightarrow> False)"

text \<open>The documented order of the rank classes: absent marker, null, numeric, textual,
  unique-identity token, other.\<close>

fun rank_position :: "Rank \<Rightarrow> nat" where
  "rank_position UNDEFINED = 0"
| "rank_position NULL = 1"
| "rank_position NUMBER = 2"
| "rank_position STRING = 3"
| "rank_position SYMBOL = 4"
| "rank_position OTHER = 5"

text \<open>A scalar of the type \<open>Scalar\<close> whose number, if it is one, is finite.\<close>

fun finite_scalar :: "jsval \<Rightarrow> bool" where
  "finite_scalar Undefined = True"
| "finite_scalar Null = True"
| "finite_scalar (Num (Fin x)) = True"
| "finite_scalar (Str s) = True"
| "finite_scalar (Sym y) = True"
| "finite_scalar _ = False"



fun sel_key :: "selector \<Rightarrow> nat \<times> string" where
  "sel_key (Name s) = (0, s)"
| "sel_key (Token y) = (1, symToString y)"

text \<open>An enumerable data property, as an object literal \<open>{ name: v }\<close> defines it.\<close>

definition entry :: "string \<Rightarrow> jsval \<Rightarrow> selector \<times> descriptor" where
  "entry name v = (Name name, \<lparr> dvalue = v, enumerable = True \<rparr>)"

definition num :: "rat \<Rightarrow> jsval" where
  "num x = Num (Fin x)"

text \<open>An enumerable property under a symbol, and a non-enumerable one, as
  \<open>Object.defineProperty\<close> makes it.\<close>

definition token_entry :: "symbol \<Rightarrow> jsval \<Rightarrow> selector \<times> descriptor" where
  "token_entry y v = (Token y, \<lparr> dvalue = v, enumerable = True \<rparr>)"

definition hidden_entry :: "string \<Rightarrow> jsval \<Rightarrow> selector \<times> descriptor" where
  "hidden_entry name v = (Name name, \<lparr> dvalue = v, enumerable = False \<rparr>)"

text \<open>The keys of the tests: \<open>{a: 1}\<close>, \<open>{a: 1, b: 2}\<close>, \<open>{b: 2, a: 1}\<close>,
  \<open>{a: 1, b: 3}\<close>; a key under two different symbols that are both \<open>Symbol('s')\<close>, in
  either order of definition; and a key with names, a symbol and a non-enumerable name.\<close>

definition key_a1 :: jsobj where
  "key_a1 = [entry ''a'' (num 1)]"

definition key_a1b2 :: jsobj where
  "key_a1b2 = [entry ''a'' (num 1), entry ''b'' (num 2)]"

definition key_b2a1 :: jsobj where
  "key_b2a1 = [entry ''b'' (num 2), entry ''a'' (num 1)]"

definition key_a1b3 :: jsobj where
  "key_a1b3 = [entry ''a'' (num 1), entry ''b'' (num 3)]"

definition key_s1s2 :: jsobj where
  "key_s1s2 = [token_entry (Symbol 1 ''s'') (num 0), token_entry (Symbol 2 ''s'') (num 1)]"

definition key_s2s1 :: jsobj where
  "key_s2s1 = [token_entry (Symbol 2 ''s'') (num 1), token_entry (Symbol 1 ''s'') (num 0)]"

definition key_mixed :: jsobj where
  "key_mixed = [entry ''a'' (num 1), token_entry (Symbol 1 ''s'') (Str ''symbol''),
                hidden_entry ''h'' (num 0), entry ''d'' (num 4)]"

text \<open>The counter agrees with the trie: finitely many linearized keys hold a present
  value, and \<open>size\<close> is their number.\<close>

definition counted :: "SizedCMap \<Rightarrow> bool" where
  "counted m = (finite (present_keys m) \<and> map_size m = int (card (present_keys m)))"


section \<open>The comparator\<close>

text \<open>The comparator returns a number for every pair of values: neither \<open>throw\<close> is reached.\<close>

lemma compareScalars_returns: "\<exists>v. compareScalars a b = Inr v"
  by (cases a; cases b) (simp_all add: compareScalars_def)

lemma js_sub_neg_pos: "is_negative (js_sub x y) = is_positive (js_sub y x)"
  by (cases x; cases y) auto

lemma js_sub_zero: "is_zero (js_sub x y) = is_zero (js_sub y x)"
  by (cases x; cases y) auto

lemma compareStrings_neg_pos: "is_negative (compareStrings s t) = is_positive (compareStrings t s)"
  by (auto simp: compareStrings_def)

lemma compareStrings_zero: "is_zero (compareStrings s t) = is_zero (compareStrings t s)"
  by (auto simp: compareStrings_def)

lemma cmp_neg_pos: "cmp_neg a b = cmp_pos b a"
  by (cases a; cases b)
     (simp_all add: cmp_neg_def cmp_pos_def compareScalars_def js_sub_neg_pos compareStrings_neg_pos)

lemma cmp_zero_sym: "cmp_zero a b = cmp_zero b a"
  by (cases a; cases b)
     (simp_all add: cmp_zero_def compareScalars_def js_sub_zero compareStrings_zero)

lemma js_sub_trans:
  "is_negative (js_sub x y) \<Longrightarrow> is_negative (js_sub y z) \<Longrightarrow> is_negative (js_sub x z)"
  by (cases x; cases y; cases z) auto

lemma js_sub_le_trans:
  "is_negative (js_sub x y) \<or> is_zero (js_sub x y) \<Longrightarrow>
   is_negative (js_sub y z) \<or> is_zero (js_sub y z) \<Longrightarrow>
   is_negative (js_sub x z) \<or> is_zero (js_sub x z)"
  by (cases x; cases y; cases z) auto

lemma compareStrings_trans:
  "is_negative (compareStrings x y) \<Longrightarrow> is_negative (compareStrings y z) \<Longrightarrow>
   is_negative (compareStrings x z)"
  by (auto simp: compareStrings_def split: if_splits)

lemma compareStrings_le_trans:
  "is_negative (compareStrings x y) \<or> is_zero (compareStrings x y) \<Longrightarrow>
   is_negative (compareStrings y z) \<or> is_zero (compareStrings y z) \<Longrightarrow>
   is_negative (compareStrings x z) \<or> is_zero (compareStrings x z)"
  by (auto simp: compareStrings_def split: if_splits)

lemma cmp_neg_trans: "cmp_neg a b \<Longrightarrow> cmp_neg b c \<Longrightarrow> cmp_neg a c"
  by (cases a; cases b; cases c)
     (auto simp add: cmp_neg_def compareScalars_def intro: js_sub_trans compareStrings_trans)

lemma cmp_le_trans:
  "cmp_neg a b \<or> cmp_zero a b \<Longrightarrow> cmp_neg b c \<or> cmp_zero b c \<Longrightarrow> cmp_neg a c \<or> cmp_zero a c"
  apply (cases a; cases b; cases c)
  apply (simp_all add: cmp_neg_def cmp_zero_def compareScalars_def)
  using js_sub_le_trans compareStrings_le_trans by blast+

lemma cmp_rank: "rank_position (rankScalarType a) < rank_position (rankScalarType b) \<Longrightarrow> cmp_neg a b"
  by (cases a; cases b) (simp_all add: cmp_neg_def compareScalars_def)

lemma cmp_total: "finite_scalar a \<Longrightarrow> finite_scalar b \<Longrightarrow> cmp_neg a b \<or> cmp_zero a b \<or> cmp_pos a b"
  apply (cases a rule: finite_scalar.cases; cases b rule: finite_scalar.cases)
  apply (auto simp add: cmp_neg_def cmp_zero_def cmp_pos_def compareScalars_def compareStrings_def)
  done

text \<open>
  Claim C5, as amended. On scalars whose numbers are finite, \<open>compareScalars\<close> is a
  total order up to ties: every comparison is negative, zero or positive; the sign of
  \<open>compare(a, b)\<close> is the negation of the sign of \<open>compare(b, a)\<close>; the strict and
  the weak order it induces are transitive; and a scalar of a lower rank class, in the
  order absent marker, null, numeric, textual, unique-identity token, compares below a
  scalar of a higher one.
\<close>

theorem compareScalars_order:
  assumes "finite_scalar a" and "finite_scalar b" and "finite_scalar c"
  shows "(cmp_neg a b \<or> cmp_zero a b \<or> cmp_pos a b) \<and>
         (cmp_neg a b \<longleftrightarrow> cmp_pos b a) \<and>
         (cmp_zero a b \<longleftrightarrow> cmp_zero b a) \<and>
         (cmp_neg a b \<and> cmp_neg b c \<longrightarrow> cmp_neg a c) \<and>
         ((cmp_neg a b \<or> cmp_zero a b) \<and> (cmp_neg b c \<or> cmp_zero b c)
            \<longrightarrow> cmp_neg a c \<or> cmp_zero a c) \<and>
         (rank_position (rankScalarType a) < rank_position (rankScalarType b) \<longrightarrow> cmp_neg a b)"
proof -
  have total: "cmp_neg a b \<or> cmp_zero a b \<or> cmp_pos a b"
    using assms(1,2) by (rule cmp_total)
  have strict: "cmp_neg a b \<and> cmp_neg b c \<longrightarrow> cmp_neg a c"
    using cmp_neg_trans by blast
  have weak: "(cmp_neg a b \<or> cmp_zero a b) \<and> (cmp_neg b c \<or> cmp_zero b c)
            \<longrightarrow> cmp_neg a c \<or> cmp_zero a c"
    using cmp_le_trans by blast
  show ?thesis
    using total strict weak cmp_neg_pos [of a b] cmp_zero_sym [of a b] cmp_rank [of a b]
    by blast
qed

theorem compareScalars_order_witness:
  "finite_scalar (num 1) \<and> finite_scalar (Str ''a'') \<and> finite_scalar (Str ''b'') \<and>
   cmp_neg (num 1) (Str ''a'') \<and> cmp_neg (Str ''a'') (Str ''b'') \<and>
   rank_position (rankScalarType (num 1)) < rank_position (rankScalarType (Str ''a'')) \<and>
   cmp_pos (Str ''a'') (num 1) \<and> cmp_neg (num 1) (Str ''b'')"
  using compareScalars_order [of "num 1" "Str ''a''" "Str ''b''"]
  by (simp add: num_def cmp_neg_def compareScalars_def compareStrings_def)

text \<open>
  Claim C5 as stated, for all scalars, fails on the numbers that subtraction does not
  order: \<open>Infinity - Infinity\<close> and \<open>NaN - 0\<close> are \<open>NaN\<close>, which is neither negative,
  zero nor positive, so \<open>Infinity\<close> is not comparable with itself and \<open>NaN\<close> with
  nothing.
\<close>

theorem compareScalars_order_counterexample:
  "compareScalars (Num PosInf) (Num PosInf) = Inr NaN \<and>
   \<not> (cmp_neg (Num PosInf) (Num PosInf) \<or> cmp_zero (Num PosInf) (Num PosInf)
      \<or> cmp_pos (Num PosInf) (Num PosInf)) \<and>
   compareScalars (Num NaN) (num 0) = Inr NaN \<and>
   \<not> (cmp_neg (Num NaN) (num 0) \<or> cmp_zero (Num NaN) (num 0) \<or> cmp_pos (Num NaN) (num 0))"
  by (simp add: num_def cmp_neg_def cmp_zero_def cmp_pos_def compareScalars_def)

text \<open>
  Claim C6 says that the comparator raises the non-scalar error for every input of rank
  \<open>OTHER\<close>. It does not: the rank of such a value is \<open>Infinity\<close>, so the difference of
  the ranks is \<open>NaN\<close> against another such value and infinite against a scalar, never
  zero, and the comparator returns that difference before it reaches the \<open>switch\<close>
  whose \<open>OTHER\<close> case throws.
\<close>

theorem compareScalars_other_returns:
  "compareScalars (Obj 1) (Obj 2) = Inr NaN \<and>
   compareScalars (Obj 1) (Obj 1) = Inr NaN \<and>
   compareScalars (Obj 1) (num 0) = Inr PosInf \<and>
   compareScalars (num 0) (Obj 1) = Inr NegInf \<and>
   compareScalars (Bool True) (Str ''a'') = Inr PosInf"
  by (simp add: num_def compareScalars_def)

section \<open>Key sequences\<close>

text \<open>On selectors the comparator never throws and orders by \<open>sel_key\<close>, so the sort of
  \<open>asValues\<close> is the stable sort by that key.\<close>

lemma compare_selectors:
  "\<exists>v. compareScalars (scalar_of x) (scalar_of y) = Inr v \<and> (is_positive v \<longleftrightarrow> sel_key y < sel_key x)"
  by (cases x; cases y) (auto simp: compareScalars_def compareStrings_def)

lemma js_insert_selectors:
  "js_insert (\<lambda>x y. compareScalars (scalar_of x) (scalar_of y)) x ys = Inr (insort_key sel_key x ys)"
proof (induction ys)
  case Nil
  show ?case by simp
next
  case (Cons y ys)
  obtain v where v: "compareScalars (scalar_of x) (scalar_of y) = Inr v"
    and pos: "is_positive v \<longleftrightarrow> sel_key y < sel_key x"
    using compare_selectors [of x y] by blast
  show ?case using Cons.IH by (auto simp: v pos)
qed

lemma js_sort_selectors:
  "js_sort (\<lambda>x y. compareScalars (scalar_of x) (scalar_of y)) xs = Inr (sort_key sel_key xs)"
  by (induction xs) (simp_all add: js_insert_selectors)

lemma asValues_sorted: "asValues obj = Inr (sort_key sel_key (asObjects obj))"
  by (simp add: asValues_def js_sort_selectors)







section \<open>Walks of the trie\<close>

lemma findNode_loop_descend: "findNode_loop key keySeq node = descend node (steps key keySeq)"
  by (induction keySeq arbitrary: node)
     (auto simp: steps_def child_at_def split: option.splits)

lemma steps_Cons: "steps key (e # keySeq) = (e, getProp key e) # steps key keySeq"
  by (simp add: steps_def)

lemma slot_at_Nil [simp]: "slot_at node [] = node_value node"
  by (simp add: slot_at_def)

lemma slot_at_Cons: "slot_at node ((e, v) # p) =
   (case child_at node e v of None \<Rightarrow> notPresent | Some c \<Rightarrow> slot_at c p)"
  by (simp add: slot_at_def split: option.splits)

lemma descend_emptyNode: "descend emptyNode p = (if p = [] then Some emptyNode else None)"
  by (cases p) (auto simp: emptyNode_def child_at_def)

lemma slot_at_emptyNode [simp]: "slot_at emptyNode p = notPresent"
  by (cases p) (auto simp: slot_at_def emptyNode_def child_at_def)

lemma child_at_makeNode_step:
  "child_at (makeNode_loop key (e # keySeq) f node) e' v' =
     (if e' = e \<and> v' = getProp key e
      then Some (makeNode_loop key keySeq f
                  (case child_at node e v' of None \<Rightarrow> emptyNode | Some c \<Rightarrow> c))
      else child_at node e' v')"
  by (auto simp: child_at_def getOrMaybeAdd_def Let_def update_conv' split: option.splits prod.splits)

lemma node_value_makeNode_step [simp]:
  "node_value (makeNode_loop key (e # keySeq) f node) = node_value node"
  by (simp add: Let_def split: prod.splits)

declare makeNode_loop.simps(2) [simp del]

lemma descend_makeNode:
  "descend (makeNode_loop key keySeq f node) (steps key keySeq) =
     Some (f (case descend node (steps key keySeq) of None \<Rightarrow> emptyNode | Some t \<Rightarrow> t))"
proof (induction keySeq arbitrary: node)
  case Nil
  show ?case by (simp add: steps_def)
next
  case (Cons e keySeq)
  show ?case
    by (simp add: steps_Cons child_at_makeNode_step Cons.IH descend_emptyNode split: option.splits)
qed

lemma slot_at_makeNode:
  assumes f: "\<And>t. node_next (f t) = node_next t"
  shows "slot_at (makeNode_loop key keySeq f node) q =
     (if q = steps key keySeq
      then node_value (f (case descend node q of None \<Rightarrow> emptyNode | Some t \<Rightarrow> t))
      else slot_at node q)"
proof (induction keySeq arbitrary: node q)
  case Nil
  show ?case
  proof (cases q)
    case Nil
    then show ?thesis by (simp add: steps_def)
  next
    case (Cons ev q')
    then show ?thesis
      by (cases ev) (simp add: steps_def slot_at_Cons child_at_def f)
  qed
next
  case (Cons e keySeq)
  show ?case
  proof (cases q)
    case Nil
    then show ?thesis by (simp add: steps_def)
  next
    case (Cons ev q')
    obtain e' v' where ev: "ev = (e', v')" by (cases ev)
    show ?thesis
      unfolding Cons ev steps_Cons slot_at_Cons child_at_makeNode_step
      by (auto simp: Cons.IH descend_emptyNode split: option.splits)
  qed
qed

lemma slot_at_set:
  "slot_at (makeNode_loop key keySeq (set_value v) node) q =
     (if q = steps key keySeq then Present v else slot_at node q)"
  by (simp add: slot_at_makeNode set_value_def)

lemma slot_at_ensure:
  "slot_at (makeNode_loop key keySeq (\<lambda>node. node) node) q = slot_at node q"
proof -
  have "slot_at (makeNode_loop key keySeq (\<lambda>node. node) node) q =
     (if q = steps key keySeq
      then node_value (case descend node q of None \<Rightarrow> emptyNode | Some t \<Rightarrow> t)
      else slot_at node q)"
    by (rule slot_at_makeNode) simp
  then show ?thesis
    by (auto simp: slot_at_def emptyNode_def split: option.splits)
qed

lemma dead_slot: "dead node \<Longrightarrow> slot_at node q = notPresent"
  by (cases q) (auto simp: dead_def slot_at_Cons child_at_def)

lemma child_at_delete_step:
  "child_at (delete_loop key (e # keySeq) node) e' v' =
     (if e' = e \<and> v' = getProp key e
      then (case child_at node e v' of
              None \<Rightarrow> None
            | Some c \<Rightarrow> if dead (delete_loop key keySeq c) then None
                        else Some (delete_loop key keySeq c))
      else child_at node e' v')"
proof (cases "child_at node e (getProp key e)")
  case None
  then have "delete_loop key (e # keySeq) node = node"
    by (auto simp: child_at_def split: option.splits)
  with None show ?thesis by auto
next
  case (Some c)
  then obtain nxt fm where nxt: "node_next node = Some nxt"
    and fm: "map_of nxt e = Some fm" and c: "map_of fm (getProp key e) = Some c"
    by (auto simp: child_at_def split: option.splits)
  have gone: "map_of fm v' = None" if "AList.delete (getProp key e) fm = []" "v' \<noteq> getProp key e"
  proof -
    have "map_of (AList.delete (getProp key e) fm) v' = map_of fm v'"
      using that(2) by (simp add: delete_conv')
    then show ?thesis using that(1) by simp
  qed
  show ?thesis
    using Some gone
    by (auto simp: child_at_def nxt fm c Let_def update_conv' delete_conv')
qed

lemma node_value_delete_step [simp]:
  "node_value (delete_loop key (e # keySeq) node) = node_value node"
  by (simp add: Let_def split: option.splits)

declare delete_loop.simps(2) [simp del]

lemma slot_at_delete:
  "slot_at (delete_loop key keySeq node) q =
     (if q = steps key keySeq then notPresent else slot_at node q)"
proof (induction keySeq arbitrary: node q)
  case Nil
  show ?case
  proof (cases q)
    case Nil
    then show ?thesis by (simp add: steps_def)
  next
    case (Cons ev q')
    then show ?thesis
      by (cases ev) (simp add: steps_def slot_at_Cons child_at_def)
  qed
next
  case (Cons e keySeq)
  show ?case
  proof (cases q)
    case Nil
    then show ?thesis by (simp add: steps_def)
  next
    case (Cons ev q')
    obtain e' v' where ev: "ev = (e', v')" by (cases ev)
    show ?thesis
      unfolding Cons ev steps_Cons slot_at_Cons child_at_delete_step
      using Cons.IH dead_slot
      by (auto split: option.splits) metis+
  qed
qed


lemma get_slot:
  "get key m =
     (case keyGenerator m key of
        Inl e \<Rightarrow> (Inl e, m)
      | Inr keySeq \<Rightarrow>
          (Inr (case slot_at (values m) (steps key keySeq) of
                  notPresent \<Rightarrow> Undefined | Present v \<Rightarrow> v), m))"
  by (simp add: get_def findNode_def findNode_loop_descend slot_at_def
           split: sum.splits option.splits slot.splits)

section \<open>Reading after writing\<close>

lemma set_cmap_eq:
  "keyGenerator m key = Inr keySeq \<Longrightarrow>
   set_cmap key v m =
     (Inr (m\<lparr> values := makeNode_loop key keySeq (set_value v) (values m) \<rparr>),
      m\<lparr> values := makeNode_loop key keySeq (set_value v) (values m) \<rparr>)"
  by (simp add: set_cmap_def makeNode_def)

lemma set_cmap_throws:
  "keyGenerator m key = Inl e \<Longrightarrow> set_cmap key v m = (Inl e, m)"
  by (simp add: set_cmap_def makeNode_def)

lemma get_throws:
  "keyGenerator m key = Inl e \<Longrightarrow> get key m = (Inl e, m)"
  by (simp add: get_def findNode_def)




lemmas key_defs = key_a1_def key_a1b2_def key_b2a1_def key_a1b3_def key_s1s2_def key_s2s1_def
  key_mixed_def entry_def token_entry_def hidden_entry_def num_def

lemmas strategy_defs = asValues_def asObjects_def asObjectsGen_def getOwnPropertyNames_def
  getOwnPropertySymbols_def isEnumerable_def getOwnPropertyDescriptor_def
  compareScalars_def compareStrings_def symToString_def

lemmas map_defs = set_cmap_def makeNode_def get_def findNode_def newCMap_def emptyNode_def
  getProp_def getOrMaybeAdd_def set_value_def Let_def makeNode_loop.simps(2)

lemma builtin_returns:
  "keyGenerator m = asValues \<or> keyGenerator m = asObjectsGen \<or> (\<exists>keySeq. keyGenerator m key = Inr keySeq)
   \<Longrightarrow> \<exists>keySeq. keyGenerator m key = Inr keySeq"
  by (auto simp: asValues_sorted asObjectsGen_def)

lemma asValues_examples:
  "asValues key_a1 = Inr [Name ''a'']"
  "asValues key_a1b2 = Inr [Name ''a'', Name ''b'']"
  "asValues key_b2a1 = Inr [Name ''a'', Name ''b'']"
  "asValues key_a1b3 = Inr [Name ''a'', Name ''b'']"
  "asValues key_s1s2 = Inr [Token (Symbol 1 ''s''), Token (Symbol 2 ''s'')]"
  "asValues key_s2s1 = Inr [Token (Symbol 2 ''s''), Token (Symbol 1 ''s'')]"
  by (simp_all add: key_defs strategy_defs)















text \<open>
  Claim C10. For every map whose strategy is one of the two built-in ones, or returns a
  key sequence for \<open>k\<close>, and every key \<open>k\<close>: after
  \<open>set(k, undefined)\<close>, \<open>get(k)\<close> returns \<open>undefined\<close>, which is also what \<open>get(k)\<close>
  returns on a new map, where \<open>k\<close> was never set; yet the node of \<open>k\<close> then holds the
  stored \<open>undefined\<close> and not the sentinel, whereas on the new map any node found for
  \<open>k\<close> holds the sentinel.
\<close>

theorem stored_undefined_reads_as_absent:
  assumes "keyGenerator m = asValues \<or> keyGenerator m = asObjectsGen \<or>
           (\<exists>keySeq. keyGenerator m k = Inr keySeq)"
  shows "fst (get k (snd (set_cmap k Undefined m))) = Inr Undefined \<and>
         fst (get k (newCMap (keyGenerator m))) = Inr Undefined \<and>
         (\<exists>n. findNode (snd (set_cmap k Undefined m)) k = Inr (Some n) \<and>
              node_value n = Present Undefined) \<and>
         (\<forall>n. findNode (newCMap (keyGenerator m)) k = Inr (Some n) \<longrightarrow> node_value n = notPresent)"
proof -
  obtain ks where ks: "keyGenerator m k = Inr ks"
    using builtin_returns [OF assms] by blast
  have a: "fst (get k (snd (set_cmap k Undefined m))) = Inr Undefined"
    by (simp add: set_cmap_eq ks get_slot slot_at_set)
  have b: "fst (get k (newCMap (keyGenerator m))) = Inr Undefined"
    by (simp add: get_slot newCMap_def ks)
  have c: "\<exists>n. findNode (snd (set_cmap k Undefined m)) k = Inr (Some n) \<and>
              node_value n = Present Undefined"
    by (simp add: set_cmap_eq ks findNode_def findNode_loop_descend descend_makeNode set_value_def)
  have d: "\<forall>n. findNode (newCMap (keyGenerator m)) k = Inr (Some n) \<longrightarrow> node_value n = notPresent"
    by (auto simp: findNode_def newCMap_def ks findNode_loop_descend descend_emptyNode
             split: if_splits) (simp add: emptyNode_def)
  from a b c d show ?thesis by blast
qed

theorem stored_undefined_reads_as_absent_witness:
  "(keyGenerator (newCMap asValues) = asValues \<or> keyGenerator (newCMap asValues) = asObjectsGen \<or>
    (\<exists>keySeq. keyGenerator (newCMap asValues) key_a1 = Inr keySeq)) \<and>
   fst (get key_a1 (snd (set_cmap key_a1 Undefined (newCMap asValues)))) = Inr Undefined \<and>
   fst (get key_a1 (newCMap asValues)) = Inr Undefined \<and>
   findNode (snd (set_cmap key_a1 Undefined (newCMap asValues))) key_a1
     = Inr (Some (Node (Present Undefined) None)) \<and>
   findNode (newCMap asValues) key_a1 = Inr None"
proof -
  have h: "keyGenerator (newCMap asValues) = asValues \<or> keyGenerator (newCMap asValues) = asObjectsGen \<or>
           (\<exists>keySeq. keyGenerator (newCMap asValues) key_a1 = Inr keySeq)"
    by (simp add: newCMap_def)
  have f: "findNode (snd (set_cmap key_a1 Undefined (newCMap asValues))) key_a1
             = Inr (Some (Node (Present Undefined) None))"
          "findNode (newCMap asValues) key_a1 = Inr None"
    by (simp_all add: asValues_examples map_defs)
  show ?thesis
    using h f stored_undefined_reads_as_absent [OF h]
    by (simp add: newCMap_def)
qed

section \<open>The size counter\<close>


lemma linearize_Some:
  "linearize kg key = Some p \<longleftrightarrow> (\<exists>keySeq. kg key = Inr keySeq \<and> p = steps key keySeq)"
  by (auto simp: linearize_def split: sum.splits)

lemma has_slot:
  "keyGenerator (cmap m) key = Inr keySeq \<Longrightarrow>
   has key m = (Inr (slot_at (values (cmap m)) (steps key keySeq) \<noteq> notPresent), m)"
  by (simp add: has_def findNode_def findNode_loop_descend slot_at_def split: option.splits)


lemma set_sized_eq:
  assumes "keyGenerator (cmap m) key = Inr keySeq"
  shows "snd (set_sized key v m) =
     \<lparr> cmap = (cmap m)\<lparr> values := makeNode_loop key keySeq (set_value v)
                                     (makeNode_loop key keySeq (\<lambda>node. node) (values (cmap m))) \<rparr>,
       map_size = (if slot_at (values (cmap m)) (steps key keySeq) = notPresent
                   then map_size m + 1 else map_size m) \<rparr>"
    and "fst (set_sized key v m) = Inr (snd (set_sized key v m))"
proof -
  have "(case descend (makeNode_loop key keySeq (\<lambda>node. node) (values (cmap m))) (steps key keySeq) of
           None \<Rightarrow> True | Some node \<Rightarrow> node_value node = notPresent)
        = (slot_at (values (cmap m)) (steps key keySeq) = notPresent)"
    by (simp add: descend_makeNode slot_at_def emptyNode_def split: option.splits)
  then show "snd (set_sized key v m) =
     \<lparr> cmap = (cmap m)\<lparr> values := makeNode_loop key keySeq (set_value v)
                                     (makeNode_loop key keySeq (\<lambda>node. node) (values (cmap m))) \<rparr>,
       map_size = (if slot_at (values (cmap m)) (steps key keySeq) = notPresent
                   then map_size m + 1 else map_size m) \<rparr>"
    by (simp add: set_sized_def assms findNode_loop_descend Let_def)
  show "fst (set_sized key v m) = Inr (snd (set_sized key v m))"
    by (simp add: set_sized_def assms Let_def)
qed

lemma set_sized_throws:
  "keyGenerator (cmap m) key = Inl e \<Longrightarrow> set_sized key v m = (Inl e, m)"
  by (simp add: set_sized_def)

lemma delete_eq:
  assumes "keyGenerator (cmap m) key = Inr keySeq"
  shows "delete key m =
     (if slot_at (values (cmap m)) (steps key keySeq) = notPresent then (Inr False, m)
      else (Inr True,
            \<lparr> cmap = (cmap m)\<lparr> values := delete_loop key keySeq (values (cmap m)) \<rparr>,
              map_size = map_size m - 1 \<rparr>))"
  by (simp add: delete_def assms findNode_loop_descend slot_at_def split: option.splits)

lemma delete_throws:
  "keyGenerator (cmap m) key = Inl e \<Longrightarrow> delete key m = (Inl e, m)"
  by (simp add: delete_def)

lemma keyGenerator_apply_op [simp]:
  "keyGenerator (cmap (apply_op c m)) = keyGenerator (cmap m)"
proof (cases c)
  case (Set key v)
  then show ?thesis
    by (cases "keyGenerator (cmap m) key") (simp_all add: set_sized_throws set_sized_eq)
next
  case (Delete key)
  then show ?thesis
    by (cases "keyGenerator (cmap m) key") (simp_all add: delete_throws delete_eq)
qed

lemma keyGenerator_run [simp]: "keyGenerator (cmap (run cs m)) = keyGenerator (cmap m)"
  by (induction cs arbitrary: m) simp_all

lemma present_keys_set:
  assumes "keyGenerator (cmap m) key = Inr keySeq"
  shows "present_keys (snd (set_sized key v m)) = insert (steps key keySeq) (present_keys m)"
  by (auto simp: present_keys_def set_sized_eq [OF assms] slot_at_set slot_at_ensure)

lemma present_keys_delete:
  assumes "keyGenerator (cmap m) key = Inr keySeq"
  shows "present_keys (snd (delete key m)) = present_keys m - {steps key keySeq}"
  by (auto simp: present_keys_def delete_eq [OF assms] slot_at_delete)

lemma keys_set_Cons:
  "keys_set kg (c # cs) =
     (case c of Set key v \<Rightarrow> (case linearize kg key of None \<Rightarrow> {} | Some p \<Rightarrow> {p}) | Delete key \<Rightarrow> {})
     \<union> keys_set kg cs"
  by (auto simp: keys_set_def split: op.splits option.splits)

lemma keys_set_Nil [simp]: "keys_set kg [] = {}"
  by (simp add: keys_set_def)

lemma finite_keys_set: "finite (keys_set kg cs)"
  by (induction cs) (auto simp: keys_set_Cons split: op.splits option.splits)

lemma counted_apply_op:
  assumes "counted m"
  shows "counted (apply_op c m) \<and>
         present_keys (apply_op c m) \<subseteq> present_keys m \<union> keys_set (keyGenerator (cmap m)) [c]"
proof (cases c)
  case (Set key v)
  show ?thesis
  proof (cases "keyGenerator (cmap m) key")
    case (Inl e)
    with Set assms show ?thesis by (simp add: set_sized_throws)
  next
    case (Inr keySeq)
    have pk: "present_keys (apply_op c m) = insert (steps key keySeq) (present_keys m)"
      using Set by (simp add: present_keys_set [OF Inr])
    have sz: "map_size (apply_op c m) =
          (if steps key keySeq \<in> present_keys m then map_size m else map_size m + 1)"
      using Set by (simp add: set_sized_eq [OF Inr] present_keys_def)
    have "counted (apply_op c m)"
      using assms unfolding counted_def pk sz by (simp add: insert_absorb)
    moreover have "steps key keySeq \<in> keys_set (keyGenerator (cmap m)) [c]"
      using Set Inr by (simp add: keys_set_Cons linearize_def)
    ultimately show ?thesis using pk by auto
  qed
next
  case (Delete key)
  show ?thesis
  proof (cases "keyGenerator (cmap m) key")
    case (Inl e)
    with Delete assms show ?thesis by (simp add: delete_throws)
  next
    case (Inr keySeq)
    have pk: "present_keys (apply_op c m) = present_keys m - {steps key keySeq}"
      using Delete by (simp add: present_keys_delete [OF Inr])
    have sz: "map_size (apply_op c m) =
          (if steps key keySeq \<in> present_keys m then map_size m - 1 else map_size m)"
      using Delete by (simp add: delete_eq [OF Inr] present_keys_def)
    have "card (present_keys m) > 0" if "steps key keySeq \<in> present_keys m"
      using that assms by (auto simp: counted_def card_gt_0_iff)
    then have "counted (apply_op c m)"
      using assms unfolding counted_def pk sz by (auto simp: Suc_leI)
    then show ?thesis using pk by auto
  qed
qed

lemma counted_run:
  assumes "counted m"
  shows "counted (run cs m) \<and>
         present_keys (run cs m) \<subseteq> present_keys m \<union> keys_set (keyGenerator (cmap m)) cs"
  using assms
proof (induction cs arbitrary: m)
  case Nil
  then show ?case by simp
next
  case (Cons c cs)
  from counted_apply_op [OF Cons.prems, of c]
  have c1: "counted (apply_op c m)"
    and s1: "present_keys (apply_op c m) \<subseteq> present_keys m \<union> keys_set (keyGenerator (cmap m)) [c]"
    by simp_all
  from Cons.IH [OF c1]
  have c2: "counted (run cs (apply_op c m))"
    and s2: "present_keys (run cs (apply_op c m))
              \<subseteq> present_keys (apply_op c m) \<union> keys_set (keyGenerator (cmap m)) cs"
    by simp_all
  have "keys_set (keyGenerator (cmap m)) (c # cs) =
        keys_set (keyGenerator (cmap m)) [c] \<union> keys_set (keyGenerator (cmap m)) cs"
    by (simp add: keys_set_Cons [of _ c cs] keys_set_Cons [of _ c "[]"])
  with c2 s1 s2 show ?case by auto
qed

lemma present_keys_new [simp]: "present_keys (newSizedCMap kg) = {}"
  by (simp add: present_keys_def newSizedCMap_def newCMap_def)

lemma counted_new: "counted (newSizedCMap kg)"
  by (simp add: counted_def) (simp add: newSizedCMap_def)

text \<open>
  Claim C4. After any sequence of \<open>set\<close> and \<open>delete\<close> calls on a new map, with any
  key-sequence strategy: finitely many linearized keys hold a present value, \<open>size\<close>
  is their number, it is not negative, it is at most the number of distinct linearized
  keys that the \<open>set\<close> calls of the sequence wrote, and the linearized keys holding a
  value are those of the keys for which \<open>has\<close> is true.
\<close>

theorem size_consistency:
  "finite (present_keys (run cs (newSizedCMap kg))) \<and>
   map_size (run cs (newSizedCMap kg)) = int (card (present_keys (run cs (newSizedCMap kg)))) \<and>
   0 \<le> map_size (run cs (newSizedCMap kg)) \<and>
   map_size (run cs (newSizedCMap kg)) \<le> int (card (keys_set kg cs)) \<and>
   present_keys (run cs (newSizedCMap kg)) =
     {p. \<exists>key. linearize kg key = Some p \<and> fst (has key (run cs (newSizedCMap kg))) = Inr True}"
proof -
  let ?m = "run cs (newSizedCMap kg)"
  have kg0: "keyGenerator (cmap (newSizedCMap kg)) = kg"
    by (simp add: newSizedCMap_def newCMap_def)
  have kg: "keyGenerator (cmap ?m) = kg"
    by (simp add: kg0)
  from counted_run [OF counted_new, where cs = cs and kg1 = kg]
  have c: "counted ?m" and sub: "present_keys ?m \<subseteq> keys_set kg cs"
    by (simp_all add: kg0)
  have fin: "finite (present_keys ?m)" and sz: "map_size ?m = int (card (present_keys ?m))"
    using c by (simp_all add: counted_def)
  have le: "card (present_keys ?m) \<le> card (keys_set kg cs)"
    using sub finite_keys_set by (rule card_mono [rotated])
  have eq: "present_keys ?m = {p. \<exists>key. linearize kg key = Some p \<and> fst (has key ?m) = Inr True}"
  proof (rule set_eqI, rule iffI)
    fix p assume p: "p \<in> present_keys ?m"
    with sub have "p \<in> keys_set kg cs" by blast
    then obtain key where k: "linearize kg key = Some p"
      by (auto simp: keys_set_def)
    then obtain keySeq where ks: "kg key = Inr keySeq" "p = steps key keySeq"
      by (auto simp: linearize_Some)
    have "fst (has key ?m) = Inr True"
      using p ks has_slot [of ?m key keySeq] by (simp add: kg0 present_keys_def)
    with k show "p \<in> {p. \<exists>key. linearize kg key = Some p \<and> fst (has key ?m) = Inr True}"
      by blast
  next
    fix p assume "p \<in> {p. \<exists>key. linearize kg key = Some p \<and> fst (has key ?m) = Inr True}"
    then obtain key keySeq where ks: "kg key = Inr keySeq" "p = steps key keySeq"
      and h: "fst (has key ?m) = Inr True"
      by (auto simp: linearize_Some)
    then show "p \<in> present_keys ?m"
      using has_slot [of ?m key keySeq] by (simp add: kg0 present_keys_def)
  qed
  show ?thesis using fin sz le eq by simp
qed

section \<open>Deleting and pruning\<close>




















end
